theory Spec2Isabelle
  imports Main "HOL-Library.AList"
begin

section \<open>Python values and dictionaries\<close>

text \<open>
  The values stored in \<open>session.connection_options\<close> and \<open>session.data\<close> are arbitrary
  Python objects. The model keeps the kinds that the code under study distinguishes:
  \<open>None\<close>, booleans and integers (which Python compares with \<open>0\<close>) and strings (which
  Python 3 refuses to compare with \<open>0\<close>). Floating-point numbers are left out.
\<close>

datatype pyval = VNone | VBool bool | VInt int | VStr string

text \<open>
  A Python \<open>dict\<close> is an association list in insertion order.
  \<open>d[k] = v\<close> is \<^const>\<open>AList.update\<close> (replace in place, or append),
  \<open>d.pop(k)\<close> on a present key is \<^const>\<open>AList.delete\<close>, and \<open>d[k]\<close> is
  \<^const>\<open>map_of\<close>. Two dictionaries are equal in Python when they hold the same
  keys with the same values, whatever the order: equality of their \<^const>\<open>map_of\<close>.
\<close>

type_synonym pydict = "(string \<times> pyval) list"

definition contains :: "pydict \<Rightarrow> string \<Rightarrow> bool" where
  "contains d k = (k \<in> set (map fst d))"

datatype error = KeyError | TypeError

section \<open>DbSessionSetupTask\<close>

text \<open>
  The task holds a reference to the session; the two dictionaries of the session that
  the task reads and writes (\<open>connection_options\<close> and \<open>data\<close>) are threaded
  through together with the four dictionaries of the task itself.
\<close>

record DbSessionSetupTask =
  connection_options :: pydict
  data :: pydict
  input_options :: pydict
  output_options :: pydict
  input_data :: pydict
  output_data :: pydict

text \<open>\<open>__init__\<close>: a task bound to a session, with empty bookkeeping.\<close>

definition init :: "pydict \<Rightarrow> pydict \<Rightarrow> DbSessionSetupTask" where
  "init opts dat =
     \<lparr>connection_options = opts, data = dat,
      input_options = [], output_options = [], input_data = [], output_data = []\<rparr>"

definition has_option :: "'a DbSessionSetupTask_scheme \<Rightarrow> string \<Rightarrow> bool" where
  "has_option t option = contains (connection_options t) option"

text \<open>
  \<open>extract_option\<close>: when the option is present, \<open>pop\<close> returns its value and removes
  it, and the value is stored in the input options; otherwise the default is returned.
  Under \<open>has_option\<close> the lookup always finds a value, so the \<open>KeyError\<close> of \<open>pop\<close>
  cannot occur and the inner \<open>None\<close> branch is never taken.
\<close>

definition extract_option ::
  "string \<Rightarrow> pyval \<Rightarrow> 'a DbSessionSetupTask_scheme \<Rightarrow> pyval \<times> 'a DbSessionSetupTask_scheme" where
  "extract_option option default_value t =
     (if has_option t option then
        (case map_of (connection_options t) option of
           Some v \<Rightarrow>
             (v, t\<lparr>connection_options := AList.delete option (connection_options t),
                   input_options := AList.update option v (input_options t)\<rparr>)
         | None \<Rightarrow> (default_value, t))
      else (default_value, t))"

definition define_option ::
  "string \<Rightarrow> pyval \<Rightarrow> 'a DbSessionSetupTask_scheme \<Rightarrow> 'a DbSessionSetupTask_scheme" where
  "define_option option v t =
     (let t1 = snd (extract_option option VNone t);
          t2 = t1\<lparr>connection_options := AList.update option v (connection_options t1)\<rparr>
      in t2\<lparr>output_options := AList.update option v (output_options t2)\<rparr>)"

definition define_data ::
  "string \<Rightarrow> pyval \<Rightarrow> 'a DbSessionSetupTask_scheme \<Rightarrow> 'a DbSessionSetupTask_scheme" where
  "define_data option v t =
     (let t1 = (case map_of (data t) option of
                  Some old \<Rightarrow> t\<lparr>input_data := AList.update option old (input_data t)\<rparr>
                | None \<Rightarrow> t);
          t2 = t1\<lparr>data := AList.update option v (data t1)\<rparr>
      in t2\<lparr>output_data := AList.update option v (output_data t2)\<rparr>)"

text \<open>The two kinds of loop of \<open>reset\<close>, over the keys and over the items of a dictionary.\<close>

fun remove_keys :: "string list \<Rightarrow> pydict \<Rightarrow> pydict" where
  "remove_keys [] d = d"
| "remove_keys (option # rest) d =
     remove_keys rest (if contains d option then AList.delete option d else d)"

fun restore_items :: "pydict \<Rightarrow> pydict \<Rightarrow> pydict" where
  "restore_items [] d = d"
| "restore_items ((option, v) # rest) d = restore_items rest (AList.update option v d)"

definition reset :: "'a DbSessionSetupTask_scheme \<Rightarrow> 'a DbSessionSetupTask_scheme" where
  "reset t =
     (let t1 = t\<lparr>connection_options :=
                  remove_keys (map fst (output_options t)) (connection_options t)\<rparr>;
          t2 = t1\<lparr>connection_options :=
                  restore_items (input_options t1) (connection_options t1)\<rparr>;
          t3 = t2\<lparr>data := remove_keys (map fst (output_data t2)) (data t2)\<rparr>;
          t4 = t3\<lparr>data := restore_items (input_data t3) (data t3)\<rparr>;
          t5 = t4\<lparr>input_options := []\<rparr>
      in t5\<lparr>output_options := []\<rparr>)"

section \<open>Sequences of calls on a task\<close>

text \<open>
  The three calls by which a task changes the session, and a run of such calls in order.
  The value returned by \<open>extract_option\<close> is dropped: only the state matters here.
\<close>

datatype call =
    ExtractOption string pyval
  | DefineOption string pyval
  | DefineData string pyval

fun call_key :: "call \<Rightarrow> string" where
  "call_key (ExtractOption option default_value) = option"
| "call_key (DefineOption option v) = option"
| "call_key (DefineData option v) = option"

fun apply_call :: "call \<Rightarrow> 'a DbSessionSetupTask_scheme \<Rightarrow> 'a DbSessionSetupTask_scheme" where
  "apply_call (ExtractOption option default_value) t =
     snd (extract_option option default_value t)"
| "apply_call (DefineOption option v) t = define_option option v t"
| "apply_call (DefineData option v) t = define_data option v t"

fun run_calls :: "call list \<Rightarrow> 'a DbSessionSetupTask_scheme \<Rightarrow> 'a DbSessionSetupTask_scheme" where
  "run_calls [] t = t"
| "run_calls (c # cs) t = run_calls cs (apply_call c t)"

section \<open>DbPingHandlerTask\<close>

text \<open>
  Modelled from the spec: \<open>DbPingHandler\<close> (module \<open>DbSessionUtils\<close>) is the periodic
  pinger, an object with \<open>start()\<close>, \<open>stop()\<close> and \<open>join()\<close> that runs on a thread of
  its own. Its code is not among the sources, so a handler is kept as an opaque object:
  the interval it was constructed with and the method calls it has received, in order.
  Handler objects live in a store indexed by their address; \<open>_db_pinger\<close> is an address
  or \<open>None\<close>.
\<close>

datatype handler_call = Start | Stop | Join

record DbPingHandler =
  handler_interval :: pyval
  handler_calls :: "handler_call list"

record DbPingHandlerTask = DbSessionSetupTask +
  db_pinger :: "nat option"
  handlers :: "DbPingHandler list"

definition call_method ::
  "nat \<Rightarrow> handler_call \<Rightarrow> DbPingHandler list \<Rightarrow> DbPingHandler list" where
  "call_method p m hs =
     (if p < length hs
      then hs[p := (hs ! p)\<lparr>handler_calls := handler_calls (hs ! p) @ [m]\<rparr>]
      else hs)"

text \<open>
  Modelled from the spec: \<open>DbSessionData.PING_INTERVAL\<close> is the key of the ping interval
  in \<open>session.data\<close>; the constant is declared outside the sources and no result below
  depends on its spelling.
\<close>

definition PING_INTERVAL :: string where
  "PING_INTERVAL = ''ping_interval''"

text \<open>
  Modelled from the spec: \<open>session.has_data(key)\<close> is the membership test on
  \<open>session.data\<close>; the session class is not among the sources.
\<close>

definition has_data :: "'a DbSessionSetupTask_scheme \<Rightarrow> string \<Rightarrow> bool" where
  "has_data t option = contains (data t) option"

text \<open>
  \<open>__init__\<close> of the ping task: the base bookkeeping and no pinger. The third argument
  is the store of handler objects that exist already.
\<close>

definition ping_init :: "pydict \<Rightarrow> pydict \<Rightarrow> DbPingHandler list \<Rightarrow> DbPingHandlerTask" where
  "ping_init opts dat hs =
     \<lparr>connection_options = opts, data = dat,
      input_options = [], output_options = [], input_data = [], output_data = [],
      db_pinger = None, handlers = hs\<rparr>"

text \<open>
  Python's \<open>interval > 0\<close>: integers compare by value, a boolean is the integer 0 or 1,
  and Python 3 raises \<open>TypeError\<close> for a string or \<open>None\<close>.
\<close>

fun py_gt_zero :: "pyval \<Rightarrow> error + bool" where
  "py_gt_zero (VInt n) = Inr (0 < n)"
| "py_gt_zero (VBool b) = Inr b"
| "py_gt_zero (VStr s) = Inl TypeError"
| "py_gt_zero VNone = Inl TypeError"

text \<open>
  \<open>DbPingHandlerTask.reset\<close>: the base \<open>reset\<close>, then \<open>stop()\<close> and \<open>join()\<close> on
  the handler that \<open>_db_pinger\<close> refers to. The attribute itself is not assigned.
\<close>

definition DbPingHandlerTask_reset :: "DbPingHandlerTask \<Rightarrow> DbPingHandlerTask" where
  "DbPingHandlerTask_reset t =
     (let t1 = reset t
      in case db_pinger t1 of
           None \<Rightarrow> t1
         | Some p \<Rightarrow>
             t1\<lparr>handlers := call_method p Join (call_method p Stop (handlers t1))\<rparr>)"

text \<open>
  \<open>DbPingHandlerTask.on_connected\<close>. \<open>interval is not None and interval > 0\<close>
  evaluates the comparison only for a value other than \<open>None\<close>. When it holds, a new
  handler is constructed at a fresh address, stored in \<open>_db_pinger\<close> and started.
\<close>

definition DbPingHandlerTask_on_connected ::
  "DbPingHandlerTask \<Rightarrow> error + DbPingHandlerTask" where
  "DbPingHandlerTask_on_connected t =
     (if has_data t PING_INTERVAL then
        (case map_of (data t) PING_INTERVAL of
           None \<Rightarrow> Inl KeyError
         | Some interval \<Rightarrow>
             (if interval \<noteq> VNone then
                (case py_gt_zero interval of
                   Inl e \<Rightarrow> Inl e
                 | Inr positive \<Rightarrow>
                     (if positive then
                        (let p = length (handlers t);
                             hs = handlers t
                                  @ [\<lparr>handler_interval = interval, handler_calls = []\<rparr>]
                         in Inr (t\<lparr>db_pinger := Some p,
                                   handlers := call_method p Start hs\<rparr>))
                      else Inr t))
              else Inr t))
      else Inr t)"

section \<open>Dictionary lemmas\<close>

lemma has_option_lookup: "has_option t k \<longleftrightarrow> map_of (connection_options t) k \<noteq> None"
  by (simp add: has_option_def contains_def map_of_eq_None_iff)

lemma contains_iff: "contains d k \<longleftrightarrow> map_of d k \<noteq> None"
  by (simp add: contains_def map_of_eq_None_iff)

lemma map_of_remove_keys:
  "map_of (remove_keys ks d) k = (if k \<in> set ks then None else map_of d k)"
  by (induction ks arbitrary: d) (auto simp: delete_conv' contains_iff)

lemma map_of_restore_items_other:
  "k \<notin> fst ` set kvs \<Longrightarrow> map_of (restore_items kvs d) k = map_of d k"
  by (induction kvs arbitrary: d) (auto simp: update_conv')

lemma map_of_restore_items:
  "distinct (map fst kvs) \<Longrightarrow>
   map_of (restore_items kvs d) k =
     (case map_of kvs k of Some v \<Rightarrow> Some v | None \<Rightarrow> map_of d k)"
proof (induction kvs arbitrary: d)
  case Nil
  then show ?case by simp
next
  case (Cons kv kvs)
  obtain a b where kv: "kv = (a, b)" by (cases kv)
  from Cons.prems kv have d: "distinct (map fst kvs)" and a: "a \<notin> fst ` set kvs" by auto
  from a have "map_of kvs a = None" by (simp add: map_of_eq_None_iff)
  with Cons.IH [OF d, of "AList.update a b d"] kv show ?case
    by (auto simp: update_conv' split: option.splits)
qed

lemma reset_connection_options:
  assumes "distinct (map fst (input_options t))"
  shows "map_of (connection_options (reset t)) k =
     (case map_of (input_options t) k of
        Some v \<Rightarrow> Some v
      | None \<Rightarrow> (case map_of (output_options t) k of
                  Some v \<Rightarrow> None
                | None \<Rightarrow> map_of (connection_options t) k))"
proof -
  have m: "k \<in> fst ` set (output_options t) \<longleftrightarrow> map_of (output_options t) k \<noteq> None"
    by (simp add: map_of_eq_None_iff)
  have "map_of (connection_options (reset t)) k =
     (case map_of (input_options t) k of
        Some v \<Rightarrow> Some v
      | None \<Rightarrow> if k \<in> fst ` set (output_options t) then None else map_of (connection_options t) k)"
    using assms
    by (auto simp: reset_def Let_def map_of_restore_items map_of_remove_keys
        split: option.splits)
  then show ?thesis
    unfolding m by (simp split: option.splits)
qed

lemma reset_data:
  assumes "distinct (map fst (input_data t))"
  shows "map_of (data (reset t)) k =
     (case map_of (input_data t) k of
        Some v \<Rightarrow> Some v
      | None \<Rightarrow> (case map_of (output_data t) k of
                  Some v \<Rightarrow> None
                | None \<Rightarrow> map_of (data t) k))"
proof -
  have m: "k \<in> fst ` set (output_data t) \<longleftrightarrow> map_of (output_data t) k \<noteq> None"
    by (simp add: map_of_eq_None_iff)
  have "map_of (data (reset t)) k =
     (case map_of (input_data t) k of
        Some v \<Rightarrow> Some v
      | None \<Rightarrow> if k \<in> fst ` set (output_data t) then None else map_of (data t) k)"
    using assms
    by (auto simp: reset_def Let_def map_of_restore_items map_of_remove_keys
        split: option.splits)
  then show ?thesis
    unfolding m by (simp split: option.splits)
qed

lemma reset_untouched_option:
  "k \<notin> fst ` set (input_options t) \<Longrightarrow> k \<notin> fst ` set (output_options t) \<Longrightarrow>
   map_of (connection_options (reset t)) k = map_of (connection_options t) k"
  by (simp add: reset_def Let_def map_of_restore_items_other map_of_remove_keys)

lemma reset_untouched_data:
  "k \<notin> fst ` set (input_data t) \<Longrightarrow> k \<notin> fst ` set (output_data t) \<Longrightarrow>
   map_of (data (reset t)) k = map_of (data t) k"
  by (simp add: reset_def Let_def map_of_restore_items_other map_of_remove_keys)


lemma extract_option_fields:
  "data (snd (extract_option k d t)) = data t"
  "input_data (snd (extract_option k d t)) = input_data t"
  "output_data (snd (extract_option k d t)) = output_data t"
  "output_options (snd (extract_option k d t)) = output_options t"
  by (simp_all add: extract_option_def split: option.splits)

lemma extract_option_connection_options:
  "map_of (connection_options (snd (extract_option k d t))) = (map_of (connection_options t))(k := None)"
  by (auto simp: extract_option_def has_option_def contains_iff delete_conv' split: option.splits)

lemma extract_option_input_options:
  "input_options (snd (extract_option k d t)) =
     (case map_of (connection_options t) k of
        Some v \<Rightarrow> AList.update k v (input_options t)
      | None \<Rightarrow> input_options t)"
  by (auto simp: extract_option_def has_option_def contains_iff split: option.splits)

lemma define_option_fields:
  "data (define_option k v t) = data t"
  "input_data (define_option k v t) = input_data t"
  "output_data (define_option k v t) = output_data t"
  "output_options (define_option k v t) = AList.update k v (output_options t)"
  "input_options (define_option k v t) = input_options (snd (extract_option k VNone t))"
  by (simp_all add: define_option_def Let_def extract_option_fields)

lemma define_option_connection_options:
  "map_of (connection_options (define_option k v t)) = (map_of (connection_options t))(k \<mapsto> v)"
  by (simp add: define_option_def Let_def update_conv' extract_option_connection_options)

lemma define_data_fields:
  "connection_options (define_data k v t) = connection_options t"
  "input_options (define_data k v t) = input_options t"
  "output_options (define_data k v t) = output_options t"
  "data (define_data k v t) = AList.update k v (data t)"
  "output_data (define_data k v t) = AList.update k v (output_data t)"
  "input_data (define_data k v t) =
     (case map_of (data t) k of
        Some old \<Rightarrow> AList.update k old (input_data t)
      | None \<Rightarrow> input_data t)"
  by (simp_all add: define_data_def Let_def split: option.splits)

lemmas call_fields = extract_option_fields extract_option_input_options
  define_option_fields define_data_fields

lemma apply_call_other_option:
  "k \<noteq> call_key c \<Longrightarrow>
   map_of (connection_options (apply_call c t)) k = map_of (connection_options t) k"
  by (cases c)
     (simp_all add: extract_option_connection_options define_option_connection_options
        define_data_fields)

lemma apply_call_other_data:
  "k \<noteq> call_key c \<Longrightarrow> map_of (data (apply_call c t)) k = map_of (data t) k"
  by (cases c) (simp_all add: call_fields update_conv')

lemma apply_call_snapshot_keys:
  "fst ` set (input_options (apply_call c t)) \<subseteq> insert (call_key c) (fst ` set (input_options t))"
  "fst ` set (output_options (apply_call c t)) \<subseteq> insert (call_key c) (fst ` set (output_options t))"
  "fst ` set (input_data (apply_call c t)) \<subseteq> insert (call_key c) (fst ` set (input_data t))"
  "fst ` set (output_data (apply_call c t)) \<subseteq> insert (call_key c) (fst ` set (output_data t))"
  by (cases c; simp add: call_fields dom_update split: option.splits; blast)+

lemma apply_call_distinct_input_options:
  "distinct (map fst (input_options t)) \<Longrightarrow> distinct (map fst (input_options (apply_call c t)))"
  by (cases c) (simp_all add: call_fields distinct_update split: option.splits)

lemma run_calls_other:
  "k \<notin> call_key ` set cs \<Longrightarrow>
   map_of (connection_options (run_calls cs t)) k = map_of (connection_options t) k
   \<and> map_of (data (run_calls cs t)) k = map_of (data t) k"
  by (induction cs arbitrary: t) (simp_all add: apply_call_other_option apply_call_other_data)

lemma run_calls_snapshot_keys:
  "fst ` set (input_options (run_calls cs t)) \<subseteq> call_key ` set cs \<union> fst ` set (input_options t)"
  "fst ` set (output_options (run_calls cs t)) \<subseteq> call_key ` set cs \<union> fst ` set (output_options t)"
  "fst ` set (input_data (run_calls cs t)) \<subseteq> call_key ` set cs \<union> fst ` set (input_data t)"
  "fst ` set (output_data (run_calls cs t)) \<subseteq> call_key ` set cs \<union> fst ` set (output_data t)"
proof (induction cs arbitrary: t)
  case Nil
  {
    case 1 show ?case by simp
  next
    case 2 show ?case by simp
  next
    case 3 show ?case by simp
  next
    case 4 show ?case by simp
  }
next
  case (Cons c cs)
  {
    case 1
    show ?case using Cons.IH(1) [of "apply_call c t"] apply_call_snapshot_keys(1) [of c t]
      by auto
  next
    case 2
    show ?case using Cons.IH(2) [of "apply_call c t"] apply_call_snapshot_keys(2) [of c t]
      by auto
  next
    case 3
    show ?case using Cons.IH(3) [of "apply_call c t"] apply_call_snapshot_keys(3) [of c t]
      by auto
  next
    case 4
    show ?case using Cons.IH(4) [of "apply_call c t"] apply_call_snapshot_keys(4) [of c t]
      by auto
  }
qed

section \<open>Effect of a run of calls on what \<open>reset\<close> restores\<close>

lemma apply_call_reset_invariant:
  assumes "distinct (map fst (input_options t))"
    and "call_key c \<notin> fst ` set (input_options t)"
    and "call_key c \<notin> fst ` set (output_options t)"
  shows "map_of (connection_options (reset (apply_call c t)))
         = map_of (connection_options (reset t))"
proof (rule ext)
  fix k
  have d: "distinct (map fst (input_options (apply_call c t)))"
    using assms(1) by (rule apply_call_distinct_input_options)
  have n: "map_of (input_options t) (call_key c) = None"
    "map_of (output_options t) (call_key c) = None"
    using assms(2,3) by (simp_all add: map_of_eq_None_iff)
  have L: "map_of (connection_options (reset (apply_call c t))) k =
     (case map_of (input_options (apply_call c t)) k of
        Some v \<Rightarrow> Some v
      | None \<Rightarrow> (case map_of (output_options (apply_call c t)) k of
                  Some v \<Rightarrow> None
                | None \<Rightarrow> map_of (connection_options (apply_call c t)) k))"
    using d by (rule reset_connection_options)
  have R: "map_of (connection_options (reset t)) k =
     (case map_of (input_options t) k of
        Some v \<Rightarrow> Some v
      | None \<Rightarrow> (case map_of (output_options t) k of
                  Some v \<Rightarrow> None
                | None \<Rightarrow> map_of (connection_options t) k))"
    using assms(1) by (rule reset_connection_options)
  have E: "(case map_of (input_options (apply_call c t)) k of
        Some v \<Rightarrow> Some v
      | None \<Rightarrow> (case map_of (output_options (apply_call c t)) k of
                  Some v \<Rightarrow> None
                | None \<Rightarrow> map_of (connection_options (apply_call c t)) k))
     = (case map_of (input_options t) k of
        Some v \<Rightarrow> Some v
      | None \<Rightarrow> (case map_of (output_options t) k of
                  Some v \<Rightarrow> None
                | None \<Rightarrow> map_of (connection_options t) k))"
  proof (cases c)
    case (ExtractOption option default_value)
    with n show ?thesis
      by (auto simp: call_fields extract_option_connection_options update_conv'
          split: option.splits)
  next
    case (DefineOption option v)
    with n show ?thesis
      by (auto simp: call_fields extract_option_connection_options
          define_option_connection_options update_conv' split: option.splits)
  next
    case (DefineData option v)
    then show ?thesis by (simp add: call_fields split: option.splits)
  qed
  show "map_of (connection_options (reset (apply_call c t))) k
        = map_of (connection_options (reset t)) k"
    by (simp only: L R E)
qed

lemma disjoint_grow: "x \<notin> A \<Longrightarrow> A \<inter> B = {} \<Longrightarrow> B' \<subseteq> insert x B \<Longrightarrow> A \<inter> B' = {}"
  by blast

lemma run_calls_reset_invariant:
  "distinct (map call_key cs) \<Longrightarrow> distinct (map fst (input_options t)) \<Longrightarrow>
   call_key ` set cs \<inter> fst ` set (input_options t) = {} \<Longrightarrow>
   call_key ` set cs \<inter> fst ` set (output_options t) = {} \<Longrightarrow>
   map_of (connection_options (reset (run_calls cs t))) = map_of (connection_options (reset t))"
proof (induction cs arbitrary: t)
  case Nil
  then show ?case by simp
next
  case (Cons c cs)
  have fresh: "call_key c \<notin> fst ` set (input_options t)"
    "call_key c \<notin> fst ` set (output_options t)"
    using Cons.prems(3,4) by auto
  have step: "map_of (connection_options (reset (apply_call c t)))
              = map_of (connection_options (reset t))"
    using Cons.prems(2) fresh by (rule apply_call_reset_invariant)
  have c: "call_key c \<notin> call_key ` set cs" and cs: "distinct (map call_key cs)"
    using Cons.prems(1) by simp_all
  have i: "call_key ` set cs \<inter> fst ` set (input_options t) = {}"
    and out: "call_key ` set cs \<inter> fst ` set (output_options t) = {}"
    using Cons.prems(3,4) by auto
  have i': "call_key ` set cs \<inter> fst ` set (input_options (apply_call c t)) = {}"
    using c i apply_call_snapshot_keys(1) [of c t] by (rule disjoint_grow)
  have o': "call_key ` set cs \<inter> fst ` set (output_options (apply_call c t)) = {}"
    using c out apply_call_snapshot_keys(2) [of c t] by (rule disjoint_grow)
  have d': "distinct (map fst (input_options (apply_call c t)))"
    using Cons.prems(2) by (rule apply_call_distinct_input_options)
  have "map_of (connection_options (reset (run_calls cs (apply_call c t))))
        = map_of (connection_options (reset (apply_call c t)))"
    using cs d' i' o' by (rule Cons.IH)
  with step show ?case by simp
qed

lemma reset_init: "connection_options (reset (init opts dat)) = opts"
  by (simp add: reset_def init_def)

lemma apply_call_input_data_keys:
  "fst ` set (input_data t) \<subseteq> fst ` set (data t) \<Longrightarrow>
   fst ` set (input_data (apply_call c t)) \<subseteq> fst ` set (data (apply_call c t))"
  by (cases c) (auto simp: call_fields dom_update split: option.splits)

lemma run_calls_input_data_keys:
  "fst ` set (input_data t) \<subseteq> fst ` set (data t) \<Longrightarrow>
   fst ` set (input_data (run_calls cs t)) \<subseteq> fst ` set (data (run_calls cs t))"
  by (induction cs arbitrary: t) (simp_all add: apply_call_input_data_keys)

lemma apply_call_keeps_output_data_key:
  "k \<in> fst ` set (output_data t) \<Longrightarrow> k \<in> fst ` set (output_data (apply_call c t))"
  by (cases c) (simp_all add: call_fields dom_update)

lemma apply_call_keeps_input_data_free:
  "k \<notin> fst ` set (input_data t) \<Longrightarrow> \<forall>v'. c \<noteq> DefineData k v' \<Longrightarrow>
   k \<notin> fst ` set (input_data (apply_call c t))"
  by (cases c) (auto simp: call_fields dom_update split: option.splits)

lemma run_calls_keeps_data_snapshot:
  "k \<in> fst ` set (output_data t) \<Longrightarrow> k \<notin> fst ` set (input_data t) \<Longrightarrow>
   \<forall>v'. DefineData k v' \<notin> set cs \<Longrightarrow>
   k \<in> fst ` set (output_data (run_calls cs t)) \<and> k \<notin> fst ` set (input_data (run_calls cs t))"
proof (induction cs arbitrary: t)
  case Nil
  then show ?case by simp
next
  case (Cons c cs)
  from Cons.prems(3) have c: "\<forall>v'. c \<noteq> DefineData k v'" and cs: "\<forall>v'. DefineData k v' \<notin> set cs"
    by auto
  have "k \<in> fst ` set (output_data (apply_call c t))"
    using Cons.prems(1) by (rule apply_call_keeps_output_data_key)
  moreover have "k \<notin> fst ` set (input_data (apply_call c t))"
    using Cons.prems(2) c by (rule apply_call_keeps_input_data_free)
  ultimately show ?case using Cons.IH [of "apply_call c t"] cs by simp
qed

lemma reset_removes_defined_data:
  "k \<in> fst ` set (output_data t) \<Longrightarrow> k \<notin> fst ` set (input_data t) \<Longrightarrow>
   map_of (data (reset t)) k = None"
  by (simp add: reset_def Let_def map_of_restore_items_other map_of_remove_keys)

section \<open>Lemmas on the ping task\<close>

lemma reset_ping_fields:
  "db_pinger (reset t) = db_pinger t" "handlers (reset t) = handlers t"
  by (simp_all add: reset_def Let_def)

lemma call_method_length: "length (call_method p m hs) = length hs"
  by (simp add: call_method_def)

lemma call_method_other: "q \<noteq> p \<Longrightarrow> call_method p m hs ! q = hs ! q"
  by (simp add: call_method_def)

lemma call_method_same:
  "p < length hs \<Longrightarrow> handler_calls (call_method p m hs ! p) = handler_calls (hs ! p) @ [m]"
  by (simp add: call_method_def)

lemma DbPingHandlerTask_reset_db_pinger:
  "db_pinger (DbPingHandlerTask_reset t) = db_pinger t"
  by (simp add: DbPingHandlerTask_reset_def Let_def reset_ping_fields split: option.splits)

lemma DbPingHandlerTask_reset_other_handler:
  "db_pinger t \<noteq> Some q \<Longrightarrow> handlers (DbPingHandlerTask_reset t) ! q = handlers t ! q"
  by (auto simp: DbPingHandlerTask_reset_def Let_def reset_ping_fields call_method_other
      split: option.splits)

lemma DbPingHandlerTask_reset_no_pinger:
  "db_pinger t = None \<Longrightarrow> handlers (DbPingHandlerTask_reset t) = handlers t"
  by (simp add: DbPingHandlerTask_reset_def Let_def reset_ping_fields)

lemma repeated_reset_other_handler:
  "db_pinger t \<noteq> Some q \<Longrightarrow>
   db_pinger ((DbPingHandlerTask_reset ^^ m) t) = db_pinger t
   \<and> handlers ((DbPingHandlerTask_reset ^^ m) t) ! q = handlers t ! q"
  by (induction m)
     (simp_all add: DbPingHandlerTask_reset_db_pinger DbPingHandlerTask_reset_other_handler)

section \<open>Properties of the session set-up tasks\<close>

subsection \<open>Option backup and restore\<close>

text \<open>
  C1. The claim: with \<open>connection_options[k] = v0\<close>, the calls \<open>define_option(k, v1)\<close>,
  \<open>define_option(k, v2)\<close>, \<open>reset()\<close> leave \<open>connection_options[k] = v0\<close>.
  The code does otherwise. Evaluated at \<open>connection_options = {k: 0}\<close>, \<open>v1 = 1\<close>,
  \<open>v2 = 2\<close>, the result is \<open>{k: 1}\<close>: the second \<open>define_option\<close> extracts the
  intermediate value \<open>1\<close> and stores it over the archived \<open>0\<close>, and \<open>reset\<close> restores
  what the archive holds.
\<close>

theorem define_option_twice_reset_restores_intermediate:
  "connection_options
     (reset (define_option ''k'' (VInt 2) (define_option ''k'' (VInt 1)
        (init [(''k'', VInt 0)] []))))
   = [(''k'', VInt 1)]"
  by (simp add: reset_def define_option_def extract_option_def has_option_def
      contains_def init_def Let_def)

text \<open>
  C2. For every initial \<open>connection_options\<close> and every run of \<open>extract_option\<close> and
  \<open>define_option\<close> calls on pairwise distinct keys (calls of \<open>define_data\<close> may be
  mixed in, on keys distinct from the others as well), \<open>reset()\<close> on a freshly
  constructed task makes \<open>connection_options\<close> equal, as a dictionary, to the initial
  one: the same keys with the same values.
\<close>

theorem reset_roundtrip_disjoint_keys:
  assumes "distinct (map call_key cs)"
  shows "map_of (connection_options (reset (run_calls cs (init opts dat)))) = map_of opts"
proof -
  have "map_of (connection_options (reset (run_calls cs (init opts dat))))
        = map_of (connection_options (reset (init opts dat)))"
    using assms by (rule run_calls_reset_invariant) (simp_all add: init_def)
  then show ?thesis by (simp add: reset_init)
qed

theorem reset_roundtrip_disjoint_keys_witness:
  "distinct (map call_key [ExtractOption ''a'' VNone, DefineOption ''b'' (VInt 2),
       DefineOption ''c'' (VInt 3)])
   \<and> map_of (connection_options (reset (run_calls
        [ExtractOption ''a'' VNone, DefineOption ''b'' (VInt 2), DefineOption ''c'' (VInt 3)]
        (init [(''a'', VInt 1), (''b'', VInt 5)] []))))
     = map_of [(''a'', VInt 1), (''b'', VInt 5)]"
proof -
  have h: "distinct (map call_key [ExtractOption ''a'' VNone, DefineOption ''b'' (VInt 2),
       DefineOption ''c'' (VInt 3)])"
    by simp
  show ?thesis
    using h reset_roundtrip_disjoint_keys [OF h, of "[(''a'', VInt 1), (''b'', VInt 5)]" "[]"]
    by blast
qed

text \<open>
  C5. The claim: after \<open>reset()\<close> the four snapshot dictionaries are all empty.
  The code clears \<open>_input_options\<close> and \<open>_output_options\<close> only. Evaluated after
  \<open>define_data(k, 1)\<close> on an empty session: the option snapshots are empty and
  \<open>_output_data\<close> still holds \<open>{k: 1}\<close>.
\<close>

theorem reset_keeps_output_data:
  "output_data (reset (define_data ''k'' (VInt 1) (init [] []))) = [(''k'', VInt 1)]
   \<and> input_options (reset (define_data ''k'' (VInt 1) (init [] []))) = []
   \<and> output_options (reset (define_data ''k'' (VInt 1) (init [] []))) = []"
  by (simp add: reset_def define_data_def init_def Let_def)

text \<open>
  C8. Let \<open>k\<close> be absent from \<open>session.data\<close> at some point of the life of a task
  (any run of calls after its construction). After \<open>define_data(k, v)\<close>, any further
  calls other than \<open>define_data\<close> on \<open>k\<close> again, and \<open>reset()\<close>, the key \<open>k\<close> is
  absent from \<open>session.data\<close>.
\<close>

theorem define_data_absent_reset:
  assumes "\<not> contains (data (run_calls cs0 (init opts dat))) k"
    and "\<forall>v'. DefineData k v' \<notin> set cs1"
  shows "\<not> contains (data (reset (run_calls cs1
            (define_data k v (run_calls cs0 (init opts dat)))))) k"
proof -
  let ?t = "run_calls cs0 (init opts dat)"
  have "fst ` set (input_data ?t) \<subseteq> fst ` set (data ?t)"
    by (rule run_calls_input_data_keys) (simp add: init_def)
  with assms(1) have free: "k \<notin> fst ` set (input_data ?t)"
    by (auto simp: contains_def)
  from assms(1) have absent: "map_of (data ?t) k = None"
    by (simp add: contains_iff)
  have "k \<in> fst ` set (output_data (define_data k v ?t))"
    by (simp add: define_data_fields dom_update)
  moreover have "k \<notin> fst ` set (input_data (define_data k v ?t))"
    using free absent by (simp add: define_data_fields)
  ultimately have "k \<in> fst ` set (output_data (run_calls cs1 (define_data k v ?t)))
      \<and> k \<notin> fst ` set (input_data (run_calls cs1 (define_data k v ?t)))"
    using assms(2) by (rule run_calls_keeps_data_snapshot)
  then have "map_of (data (reset (run_calls cs1 (define_data k v ?t)))) k = None"
    by (simp add: reset_removes_defined_data)
  then show ?thesis by (simp add: contains_iff)
qed

theorem define_data_absent_reset_witness:
  "\<not> contains (data (run_calls [DefineData ''a'' (VInt 1)] (init [] [(''a'', VInt 0)]))) ''b''
   \<and> (\<forall>v'. DefineData ''b'' v' \<notin> set [DefineOption ''b'' (VInt 3), DefineData ''a'' (VInt 2)])
   \<and> \<not> contains (data (reset (run_calls [DefineOption ''b'' (VInt 3), DefineData ''a'' (VInt 2)]
            (define_data ''b'' (VInt 9)
               (run_calls [DefineData ''a'' (VInt 1)] (init [] [(''a'', VInt 0)])))))) ''b''"
proof -
  have h1: "\<not> contains (data (run_calls [DefineData ''a'' (VInt 1)] (init [] [(''a'', VInt 0)]))) ''b''"
    by (simp add: contains_def define_data_def init_def Let_def)
  have h2: "\<forall>v'. DefineData ''b'' v' \<notin> set [DefineOption ''b'' (VInt 3), DefineData ''a'' (VInt 2)]"
    by simp
  show ?thesis using h1 h2 define_data_absent_reset [OF h1 h2, of "VInt 9"] by blast
qed

text \<open>
  C9. A key that no \<open>extract_option\<close>, \<open>define_option\<close> or \<open>define_data\<close> call of
  the task has used is left alone by \<open>reset()\<close>: its presence and value in
  \<open>connection_options\<close> and in \<open>data\<close> are the same after \<open>reset\<close> as before, and
  the same as when the task was constructed.
\<close>

theorem reset_frame:
  assumes "k \<notin> call_key ` set cs"
  shows "map_of (connection_options (reset (run_calls cs (init opts dat)))) k
           = map_of (connection_options (run_calls cs (init opts dat))) k
       \<and> map_of (data (reset (run_calls cs (init opts dat)))) k
           = map_of (data (run_calls cs (init opts dat))) k
       \<and> map_of (connection_options (reset (run_calls cs (init opts dat)))) k = map_of opts k
       \<and> map_of (data (reset (run_calls cs (init opts dat)))) k = map_of dat k"
proof -
  let ?t = "run_calls cs (init opts dat)"
  have k: "k \<notin> fst ` set (input_options ?t)" "k \<notin> fst ` set (output_options ?t)"
    "k \<notin> fst ` set (input_data ?t)" "k \<notin> fst ` set (output_data ?t)"
    using assms run_calls_snapshot_keys [of cs "init opts dat"] by (auto simp: init_def)
  have "map_of (connection_options ?t) k = map_of opts k" "map_of (data ?t) k = map_of dat k"
    using run_calls_other [OF assms, of "init opts dat"] by (simp_all add: init_def)
  with k show ?thesis
    by (simp add: reset_untouched_option reset_untouched_data)
qed

theorem reset_frame_witness:
  "''b'' \<notin> call_key ` set [DefineOption ''a'' (VInt 1), DefineData ''c'' (VInt 2)]
   \<and> map_of (connection_options (reset (run_calls [DefineOption ''a'' (VInt 1), DefineData ''c'' (VInt 2)]
        (init [(''b'', VInt 7)] [(''b'', VInt 8)])))) ''b'' = Some (VInt 7)
   \<and> map_of (data (reset (run_calls [DefineOption ''a'' (VInt 1), DefineData ''c'' (VInt 2)]
        (init [(''b'', VInt 7)] [(''b'', VInt 8)])))) ''b'' = Some (VInt 8)"
proof -
  have h: "''b'' \<notin> call_key ` set [DefineOption ''a'' (VInt 1), DefineData ''c'' (VInt 2)]"
    by simp
  from reset_frame [OF h, of "[(''b'', VInt 7)]" "[(''b'', VInt 8)]"]
  have "map_of (connection_options (reset (run_calls
          [DefineOption ''a'' (VInt 1), DefineData ''c'' (VInt 2)]
          (init [(''b'', VInt 7)] [(''b'', VInt 8)])))) ''b'' = map_of [(''b'', VInt 7)] ''b''"
    and "map_of (data (reset (run_calls
          [DefineOption ''a'' (VInt 1), DefineData ''c'' (VInt 2)]
          (init [(''b'', VInt 7)] [(''b'', VInt 8)])))) ''b'' = map_of [(''b'', VInt 8)] ''b''"
    by blast+
  with h show ?thesis by simp
qed

subsection \<open>The keep-alive pinger\<close>

text \<open>
  C4, as amended. When \<open>_db_pinger\<close> refers to a handler, \<open>reset()\<close> calls \<open>stop()\<close>
  and then \<open>join()\<close> on it, and leaves the reference as it was: the attribute is not
  set back to \<open>None\<close>, so a reference other than \<open>None\<close> does not tell that a ping
  loop is active.
\<close>

theorem reset_stops_joins_keeps_reference:
  assumes "db_pinger t = Some p" and "p < length (handlers t)"
  shows "db_pinger (DbPingHandlerTask_reset t) = Some p
         \<and> handler_calls (handlers (DbPingHandlerTask_reset t) ! p)
             = handler_calls (handlers t ! p) @ [Stop, Join]"
  using assms
  by (simp add: DbPingHandlerTask_reset_def Let_def reset_ping_fields call_method_same
      call_method_length)

theorem reset_stops_joins_keeps_reference_witness:
  "(let t = (ping_init [] [] [\<lparr>handler_interval = VInt 5, handler_calls = [Start]\<rparr>])
              \<lparr>db_pinger := Some 0\<rparr>
    in db_pinger t = Some 0 \<and> 0 < length (handlers t)
       \<and> db_pinger (DbPingHandlerTask_reset t) = Some 0
       \<and> handler_calls (handlers (DbPingHandlerTask_reset t) ! 0) = [Start, Stop, Join])"
proof -
  let ?t = "(ping_init [] [] [\<lparr>handler_interval = VInt 5, handler_calls = [Start]\<rparr>])
              \<lparr>db_pinger := Some 0\<rparr>"
  have h1: "db_pinger ?t = Some 0" by simp
  have h2: "0 < length (handlers ?t)" by (simp add: ping_init_def)
  have "handler_calls (handlers ?t ! 0) = [Start]" by (simp add: ping_init_def)
  with h1 h2 reset_stops_joins_keeps_reference [OF h1 h2] show ?thesis
    by (simp add: Let_def)
qed

text \<open>
  C4 as stated fails: a fresh task on a session with ping interval \<open>5\<close> gets, by
  \<open>on_connected\<close>, a pinger at address \<open>0\<close>; after \<open>reset()\<close> the reference is
  still \<open>0\<close>, not \<open>None\<close>.
\<close>

theorem reset_does_not_clear_pinger:
  "DbPingHandlerTask_on_connected (ping_init [] [(PING_INTERVAL, VInt 5)] [])
     = Inr ((ping_init [] [(PING_INTERVAL, VInt 5)]
              [\<lparr>handler_interval = VInt 5, handler_calls = [Start]\<rparr>])
            \<lparr>db_pinger := Some 0\<rparr>)
   \<and> db_pinger (DbPingHandlerTask_reset
        ((ping_init [] [(PING_INTERVAL, VInt 5)]
            [\<lparr>handler_interval = VInt 5, handler_calls = [Start]\<rparr>])
         \<lparr>db_pinger := Some 0\<rparr>)) \<noteq> None"
  by (simp add: DbPingHandlerTask_on_connected_def DbPingHandlerTask_reset_db_pinger
      has_data_def contains_def ping_init_def call_method_def Let_def)

text \<open>
  C6, as amended. A negative ping interval is treated as pinging disabled:
  \<open>on_connected\<close> raises nothing and changes nothing, so a pinger that is \<open>None\<close>
  stays \<open>None\<close>. A value that is not a number is not: for a string the comparison
  \<open>interval > 0\<close> raises \<open>TypeError\<close>, which \<open>on_connected\<close> lets through.
\<close>

theorem on_connected_malformed_interval:
  "(map_of (data t) PING_INTERVAL = Some (VInt n) \<and> n < 0
      \<longrightarrow> DbPingHandlerTask_on_connected t = Inr t)
   \<and> (map_of (data t) PING_INTERVAL = Some (VStr s)
      \<longrightarrow> DbPingHandlerTask_on_connected t = Inl TypeError)"
  by (simp add: DbPingHandlerTask_on_connected_def has_data_def contains_iff)

theorem on_connected_malformed_interval_witness:
  "map_of (data (ping_init [] [(PING_INTERVAL, VInt (- 1))] [])) PING_INTERVAL
     = Some (VInt (- 1))
   \<and> (- 1 :: int) < 0
   \<and> DbPingHandlerTask_on_connected (ping_init [] [(PING_INTERVAL, VInt (- 1))] [])
       = Inr (ping_init [] [(PING_INTERVAL, VInt (- 1))] [])
   \<and> map_of (data (ping_init [] [(PING_INTERVAL, VStr ''abc'')] [])) PING_INTERVAL
       = Some (VStr ''abc'')
   \<and> DbPingHandlerTask_on_connected (ping_init [] [(PING_INTERVAL, VStr ''abc'')] [])
       = Inl TypeError"
proof -
  have h1: "map_of (data (ping_init [] [(PING_INTERVAL, VInt (- 1))] [])) PING_INTERVAL
            = Some (VInt (- 1))"
    by (simp add: ping_init_def)
  have h2: "map_of (data (ping_init [] [(PING_INTERVAL, VStr ''abc'')] [])) PING_INTERVAL
            = Some (VStr ''abc'')"
    by (simp add: ping_init_def)
  have "DbPingHandlerTask_on_connected (ping_init [] [(PING_INTERVAL, VInt (- 1))] [])
        = Inr (ping_init [] [(PING_INTERVAL, VInt (- 1))] [])"
    using h1
      on_connected_malformed_interval
        [of "ping_init [] [(PING_INTERVAL, VInt (- 1))] []" "- 1" "''abc''"]
    by simp
  moreover have "DbPingHandlerTask_on_connected (ping_init [] [(PING_INTERVAL, VStr ''abc'')] [])
        = Inl TypeError"
    using h2
      on_connected_malformed_interval
        [of "ping_init [] [(PING_INTERVAL, VStr ''abc'')] []" "- 1" "''abc''"]
    by simp
  ultimately show ?thesis using h1 h2 by simp
qed

text \<open>
  C6 as stated fails for a value that is not a number: with the ping interval set to
  the string \<open>abc\<close>, \<open>on_connected\<close> ends in \<open>TypeError\<close>.
\<close>

theorem on_connected_string_interval_raises:
  "DbPingHandlerTask_on_connected (ping_init [] [(PING_INTERVAL, VStr ''abc'')] [])
   = Inl TypeError"
  by (simp add: DbPingHandlerTask_on_connected_def has_data_def contains_def ping_init_def)

text \<open>
  C7. On a task whose pinger is \<open>None\<close>, when the ping interval is absent from
  \<open>session.data\<close>, or \<open>None\<close>, or an integer that is zero or negative,
  \<open>on_connected\<close> changes nothing: no handler is constructed or started and the pinger
  stays \<open>None\<close>. A \<open>reset()\<close> after it calls no method of any handler.
\<close>

theorem disabled_interval_no_pinger:
  assumes "db_pinger t = None"
    and "map_of (data t) PING_INTERVAL = None
         \<or> map_of (data t) PING_INTERVAL = Some VNone
         \<or> (\<exists>n. n \<le> 0 \<and> map_of (data t) PING_INTERVAL = Some (VInt n))"
  shows "DbPingHandlerTask_on_connected t = Inr t
         \<and> db_pinger (DbPingHandlerTask_reset t) = None
         \<and> handlers (DbPingHandlerTask_reset t) = handlers t"
proof -
  have "DbPingHandlerTask_on_connected t = Inr t"
    using assms(2)
    by (auto simp: DbPingHandlerTask_on_connected_def has_data_def contains_iff)
  then show ?thesis
    using assms(1)
    by (simp add: DbPingHandlerTask_reset_db_pinger DbPingHandlerTask_reset_no_pinger)
qed

theorem disabled_interval_no_pinger_witness:
  "db_pinger (ping_init [] [(PING_INTERVAL, VInt (- 3))] []) = None
   \<and> map_of (data (ping_init [] [(PING_INTERVAL, VInt (- 3))] [])) PING_INTERVAL
       = Some (VInt (- 3))
   \<and> DbPingHandlerTask_on_connected (ping_init [] [(PING_INTERVAL, VInt (- 3))] [])
       = Inr (ping_init [] [(PING_INTERVAL, VInt (- 3))] [])
   \<and> handlers (DbPingHandlerTask_reset (ping_init [] [(PING_INTERVAL, VInt (- 3))] [])) = []"
proof -
  let ?t = "ping_init [] [(PING_INTERVAL, VInt (- 3))] []"
  have h1: "db_pinger ?t = None" by (simp add: ping_init_def)
  have d: "map_of (data ?t) PING_INTERVAL = Some (VInt (- 3))" by (simp add: ping_init_def)
  then have h2: "map_of (data ?t) PING_INTERVAL = None
         \<or> map_of (data ?t) PING_INTERVAL = Some VNone
         \<or> (\<exists>n. n \<le> 0 \<and> map_of (data ?t) PING_INTERVAL = Some (VInt n))"
    by simp
  have "handlers ?t = []" by (simp add: ping_init_def)
  with h1 d disabled_interval_no_pinger [OF h1 h2] show ?thesis by simp
qed

text \<open>
  C10. When \<open>_db_pinger\<close> already refers to a handler and the ping interval is a
  positive integer, \<open>on_connected\<close> constructs a new handler at a fresh address, starts
  it and stores it in \<open>_db_pinger\<close>. The handler referred to before receives no call:
  not from \<open>on_connected\<close>, and not from any number of later \<open>reset()\<close> calls, which
  act on the current reference only.
\<close>

theorem on_connected_overwrites_pinger:
  assumes "db_pinger t = Some p" and "p < length (handlers t)"
    and "map_of (data t) PING_INTERVAL = Some (VInt n)" and "0 < n"
  shows "case DbPingHandlerTask_on_connected t of
           Inl e \<Rightarrow> False
         | Inr t' \<Rightarrow>
             db_pinger t' = Some (length (handlers t)) \<and> length (handlers t) \<noteq> p
             \<and> handlers t' ! length (handlers t)
                 = \<lparr>handler_interval = VInt n, handler_calls = [Start]\<rparr>
             \<and> handlers t' ! p = handlers t ! p
             \<and> (\<forall>m. handlers ((DbPingHandlerTask_reset ^^ m) t') ! p = handlers t ! p)"
proof -
  let ?q = "length (handlers t)"
  let ?hs = "handlers t @ [\<lparr>handler_interval = VInt n, handler_calls = []\<rparr>]"
  let ?t' = "t\<lparr>db_pinger := Some ?q, handlers := call_method ?q Start ?hs\<rparr>"
  have r: "DbPingHandlerTask_on_connected t = Inr ?t'"
    using assms(3,4)
    by (simp add: DbPingHandlerTask_on_connected_def has_data_def contains_iff Let_def)
  have ne: "?q \<noteq> p" using assms(2) by simp
  have new: "handlers ?t' ! ?q = \<lparr>handler_interval = VInt n, handler_calls = [Start]\<rparr>"
    by (simp add: call_method_def)
  have old: "handlers ?t' ! p = handlers t ! p"
    using assms(2) ne by (simp add: call_method_other nth_append)
  have "db_pinger ?t' \<noteq> Some p" using ne by simp
  then have later: "\<forall>m. handlers ((DbPingHandlerTask_reset ^^ m) ?t') ! p = handlers ?t' ! p"
    using repeated_reset_other_handler [of ?t' p] by blast
  show ?thesis
    unfolding r using ne new old later by simp
qed

theorem on_connected_overwrites_pinger_witness:
  "(let t = (ping_init [] [(PING_INTERVAL, VInt 5)]
               [\<lparr>handler_interval = VInt 5, handler_calls = [Start]\<rparr>])
            \<lparr>db_pinger := Some 0\<rparr>
    in db_pinger t = Some 0 \<and> 0 < length (handlers t)
       \<and> map_of (data t) PING_INTERVAL = Some (VInt 5) \<and> (0 :: int) < 5
       \<and> (case DbPingHandlerTask_on_connected t of
             Inl e \<Rightarrow> False
           | Inr t' \<Rightarrow>
               db_pinger t' = Some 1
               \<and> handlers t' ! 1 = \<lparr>handler_interval = VInt 5, handler_calls = [Start]\<rparr>
               \<and> handlers (DbPingHandlerTask_reset t') ! 0
                   = \<lparr>handler_interval = VInt 5, handler_calls = [Start]\<rparr>))"
proof -
  let ?t = "(ping_init [] [(PING_INTERVAL, VInt 5)]
               [\<lparr>handler_interval = VInt 5, handler_calls = [Start]\<rparr>])
            \<lparr>db_pinger := Some 0\<rparr>"
  have h1: "db_pinger ?t = Some 0" by simp
  have h2: "0 < length (handlers ?t)" by (simp add: ping_init_def)
  have h3: "map_of (data ?t) PING_INTERVAL = Some (VInt 5)" by (simp add: ping_init_def)
  have h4: "(0 :: int) < 5" by simp
  have len: "length (handlers ?t) = 1" and old: "handlers ?t ! 0
      = \<lparr>handler_interval = VInt 5, handler_calls = [Start]\<rparr>"
    by (simp_all add: ping_init_def)
  obtain t' where r: "DbPingHandlerTask_on_connected ?t = Inr t'"
    and c: "db_pinger t' = Some (length (handlers ?t))"
      "handlers t' ! length (handlers ?t)
         = \<lparr>handler_interval = VInt 5, handler_calls = [Start]\<rparr>"
      "\<forall>m. handlers ((DbPingHandlerTask_reset ^^ m) t') ! 0 = handlers ?t ! 0"
    using on_connected_overwrites_pinger [OF h1 h2 h3 h4]
    by (auto split: sum.splits)
  from c(3) have "handlers ((DbPingHandlerTask_reset ^^ 1) t') ! 0 = handlers ?t ! 0"
    by (rule spec)
  then have "handlers (DbPingHandlerTask_reset t') ! 0
             = \<lparr>handler_interval = VInt 5, handler_calls = [Start]\<rparr>"
    using old by simp
  with h1 h2 h3 c(1,2) len show ?thesis
    unfolding Let_def r by simp
qed

end
